theory Spec2Isabelle
  imports Main "HOL-Library.Sublist"
begin

section \<open>The host language: strings, arrays, errors\<close>

text \<open>
  The module \<open>src/index.ts\<close> exports one function, \<open>useSafeContext\<close>. It uses three
  things of JavaScript: \<open>String.prototype.split\<close> with a string separator, array
  indexing (which yields \<open>undefined\<close> out of range) and property access on
  \<open>undefined\<close> (which throws a \<open>TypeError\<close>). A value that may be \<open>undefined\<close> is an
  \<open>option\<close>, with \<open>None\<close> for \<open>undefined\<close>.
\<close>

datatype js_error =
    Error string   \<comment> \<open>\<open>new Error(message)\<close>, thrown at line 51\<close>
  | TypeError      \<comment> \<open>a property read on \<open>undefined\<close>; its message is the engine's\<close>

text \<open>
  \<open>s.split(sep)\<close> for a string \<open>sep\<close> and no limit: the pieces of \<open>s\<close> between the
  leftmost, non-overlapping occurrences of \<open>sep\<close>. \<open>split_from sep cur s\<close> scans \<open>s\<close>
  with \<open>cur\<close> the piece read so far. An empty separator cuts between every two
  characters (and gives no piece at all for the empty string).
\<close>

function split_from :: "string \<Rightarrow> string \<Rightarrow> string \<Rightarrow> string list" where
  "split_from sep cur [] = [cur]"
| "split_from sep cur (c # cs) =
     (if sep \<noteq> [] \<and> prefix sep (c # cs)
      then cur # split_from sep [] (drop (length sep) (c # cs))
      else split_from sep (cur @ [c]) cs)"
  by pat_completeness auto
termination
  by (relation "measure (\<lambda>(sep, cur, s). length s)") auto

definition split_str :: "string \<Rightarrow> string \<Rightarrow> string list" where
  "split_str s sep = (if sep = [] then map (\<lambda>c. [c]) s else split_from sep [] s)"

text \<open>\<open>xs[i]\<close>: the element, or \<open>undefined\<close> when \<open>i\<close> is not an index of \<open>xs\<close>.\<close>

definition index :: "'a list \<Rightarrow> int \<Rightarrow> 'a option" where
  "index xs i = (if 0 \<le> i \<and> i < int (length xs) then Some (xs ! nat i) else None)"

text \<open>A value interpolated into a template literal: \<open>undefined\<close> prints as its name.\<close>

definition template :: "string option \<Rightarrow> string" where
  "template v = (case v of None \<Rightarrow> ''undefined'' | Some s \<Rightarrow> s)"

section \<open>The module\<close>

text \<open>
  Line 2 imports \<open>use\<close> and \<open>useContext\<close> from the framework; \<open>use\<close> is missing from
  older versions of it. Both read the value of a context: the value supplied by the
  nearest provider, or the context's default. Here a primitive is the function from a
  context handle to the value it yields, in the provider state of the call.
\<close>

record ('c, 'a) react =
  use :: "('c \<Rightarrow> 'a option) option"
  useContext :: "'c \<Rightarrow> 'a option"

text \<open>Line 5, evaluated when the module is loaded: \<open>const useHook = use ?? useContext\<close>.\<close>

definition useHook :: "('c, 'a) react \<Rightarrow> 'c \<Rightarrow> 'a option" where
  "useHook r = (case use r of None \<Rightarrow> useContext r | Some u \<Rightarrow> u)"

text \<open>
  Lines 43 to 55, in a module whose constant \<open>useHook\<close> has the value \<open>hook\<close>. The
  body names neither \<open>use\<close> nor \<open>useContext\<close>, only the constant. \<open>stack\<close> is the
  \<open>stack\<close> property of the \<open>Error\<close> object built at line 47, which the runtime fills
  in (or leaves \<open>undefined\<close>); the \<open>!\<close> after it and the one at line 50 are compile-time
  assertions and do nothing when the code runs.
\<close>

definition useSafeContext_in ::
  "('c \<Rightarrow> 'a option) \<Rightarrow> string option \<Rightarrow> 'c \<Rightarrow> js_error + 'a" where
  "useSafeContext_in hook stack context =
     (case hook context of
        Some contextVal \<Rightarrow> Inr contextVal
      | None \<Rightarrow>
          (case stack of
             None \<Rightarrow> Inl TypeError
           | Some st \<Rightarrow>
               (case index (split_str st ''at '') 2 of
                  None \<Rightarrow> Inl TypeError
                | Some errorLine \<Rightarrow>
                    (let hookName = index (split_str errorLine '' '') 0;
                         splitBySlash = split_str errorLine ''/''
                     in case index splitBySlash (int (length splitBySlash) - 1) of
                          None \<Rightarrow> Inl TypeError
                        | Some lastSegment \<Rightarrow>
                            (let contextProviderName = index (split_str lastSegment ''.'') 0
                             in Inl (Error (template hookName @ '' must be used within ''
                                            @ template contextProviderName)))))))"

text \<open>The exported function of a module that was loaded with the framework \<open>r\<close>.\<close>

definition useSafeContext ::
  "('c, 'a) react \<Rightarrow> string option \<Rightarrow> 'c \<Rightarrow> js_error + 'a" where
  "useSafeContext r stack context = useSafeContext_in (useHook r) stack context"

section \<open>The life of the module\<close>

text \<open>
  Loading the module runs line 5, once, with what the framework exports at that moment,
  and keeps the result in the constant. What happens afterwards is a list of events:
  the framework's exports change (a build that has \<open>use\<close> takes the place of one that
  lacks it, or the reverse), or a component calls the function, with the stack of that
  moment. \<open>run hook now events\<close> gives the results of the calls, in a module whose
  constant is \<open>hook\<close>, while the framework exports \<open>now\<close>; \<open>program r events\<close> loads the
  module with the exports \<open>r\<close> first.
\<close>

datatype ('c, 'a) event =
    Exports "('c, 'a) react"
  | Call "string option" 'c

fun run ::
  "('c \<Rightarrow> 'a option) \<Rightarrow> ('c, 'a) react \<Rightarrow> ('c, 'a) event list \<Rightarrow> (js_error + 'a) list" where
  "run hook now [] = []"
| "run hook now (Exports r # events) = run hook r events"
| "run hook now (Call stack context # events) =
     useSafeContext_in hook stack context # run hook now events"

definition program :: "('c, 'a) react \<Rightarrow> ('c, 'a) event list \<Rightarrow> (js_error + 'a) list" where
  "program r events = run (useHook r) r events"

text \<open>The calls among the events, in their order.\<close>

fun calls :: "('c, 'a) event list \<Rightarrow> (string option \<times> 'c) list" where
  "calls [] = []"
| "calls (Exports r # events) = calls events"
| "calls (Call stack context # events) = (stack, context) # calls events"

section \<open>The runtime's stack format\<close>

text \<open>
  The stack string of the runtime, as the README prints it: a header line, then one line
  per frame, each frame descriptor after a line break, four spaces and \<open>at\<close>. Frame 0 is
  the function that built the error, here \<open>useSafeContext\<close> itself.
\<close>

definition indent :: string where
  "indent = CHR 0x0A # ''    ''"

definition stack_of :: "string \<Rightarrow> string list \<Rightarrow> string" where
  "stack_of header frames = header @ concat (map (\<lambda>f. indent @ ''at '' @ f) frames)"

section \<open>The names as the specification derives them\<close>

text \<open>
  The specification reads the two names of the message off the frames of the stack:
  the hook's name is the text of frame 1 up to its first space, the provider's name
  comes from frame 2, whose source location (what follows the function name and the
  space) is cut at the path separators, the last piece kept up to its first dot.
  These definitions follow the specification's words, to be compared with what
  \<open>useSafeContext\<close> computes.
\<close>

definition source_location :: "string \<Rightarrow> string" where
  "source_location descriptor = drop 1 (dropWhile (\<lambda>c. c \<noteq> CHR '' '') descriptor)"

definition spec_consumerHookName :: "string list \<Rightarrow> string" where
  "spec_consumerHookName frames = takeWhile (\<lambda>c. c \<noteq> CHR '' '') (frames ! 1)"

definition spec_expectedProviderName :: "string list \<Rightarrow> string" where
  "spec_expectedProviderName frames =
     takeWhile (\<lambda>c. c \<noteq> CHR ''.'') (last (split_str (source_location (frames ! 2)) ''/''))"


section \<open>Splitting\<close>

lemma split_from_nonempty: "split_from sep cur s \<noteq> []"
  by (induction sep cur s rule: split_from.induct) auto

lemma split_str_nonempty: "sep \<noteq> [] \<Longrightarrow> split_str s sep \<noteq> []"
  by (simp add: split_str_def split_from_nonempty)

lemma hd_split_from_char: "hd (split_from [c] cur s) = cur @ takeWhile (\<lambda>x. x \<noteq> c) s"
  by (induction s arbitrary: cur) auto

lemma hd_split_str_char: "hd (split_str s [c]) = takeWhile (\<lambda>x. x \<noteq> c) s"
  by (simp add: split_str_def hd_split_from_char)

lemma index_first: "xs \<noteq> [] \<Longrightarrow> index xs 0 = Some (hd xs)"
  by (cases xs) (simp_all add: index_def)

lemma index_last: "xs \<noteq> [] \<Longrightarrow> index xs (int (length xs) - 1) = Some (last xs)"
  by (simp add: index_def last_conv_nth nat_diff_distrib')

lemma index_Cons: "index (x # xs) i = (if i = 0 then Some x else index xs (i - 1))"
  by (auto simp: index_def nat_diff_distrib')

text \<open>
  Where the separator first occurs at the end of \<open>a\<close>, the first piece is \<open>a\<close> and the
  scan goes on behind the separator.
\<close>

lemma split_from_first_match:
  "sep \<noteq> [] \<Longrightarrow> \<forall>i < length a. \<not> prefix sep (drop i (a @ sep @ rest)) \<Longrightarrow>
   split_from sep cur (a @ sep @ rest) = (cur @ a) # split_from sep [] rest"
proof (induction a arbitrary: cur)
  case Nil
  then obtain c cs where sep: "sep = c # cs" by (cases sep) auto
  show ?case using Nil by (simp add: sep)
next
  case (Cons x a)
  have no: "\<not> prefix sep (x # a @ sep @ rest)"
    using Cons.prems(2) by fastforce
  have "\<forall>i < length a. \<not> prefix sep (drop i (a @ sep @ rest))"
    using Cons.prems(2) by fastforce
  then have "split_from sep (cur @ [x]) (a @ sep @ rest) = ((cur @ [x]) @ a) # split_from sep [] rest"
    using Cons.IH Cons.prems(1) by blast
  then show ?case using no by simp
qed

section \<open>The failing branch\<close>

text \<open>
  Once the stack string has a piece at index 2, nothing in the failing branch is
  \<open>undefined\<close>: a split by a separator that is not empty has a first and a last piece.
\<close>

lemma useSafeContext_value:
  "useHook r context = Some v \<Longrightarrow> useSafeContext r stack context = Inr v"
  by (simp add: useSafeContext_def useSafeContext_in_def)

lemma useSafeContext_message:
  assumes "useHook r context = None"
    and "index (split_str st ''at '') 2 = Some errorLine"
  shows "useSafeContext r (Some st) context =
         Inl (Error (hd (split_str errorLine '' '') @ '' must be used within ''
                     @ hd (split_str (last (split_str errorLine ''/'')) ''.'')))"
proof -
  have a: "index (split_str errorLine '' '') 0 = Some (hd (split_str errorLine '' ''))"
    by (rule index_first) (simp add: split_str_nonempty)
  have b: "index (split_str errorLine ''/'') (int (length (split_str errorLine ''/'')) - 1)
           = Some (last (split_str errorLine ''/''))"
    by (rule index_last) (simp add: split_str_nonempty)
  have c: "index (split_str (last (split_str errorLine ''/'')) ''.'') 0
           = Some (hd (split_str (last (split_str errorLine ''/'')) ''.''))"
    by (rule index_first) (simp add: split_str_nonempty)
  show ?thesis
    unfolding useSafeContext_def useSafeContext_in_def Let_def
    by (simp only: assms a b c option.case template_def)
qed

lemma useSafeContext_no_piece:
  assumes "useHook r context = None"
    and "index (split_str st ''at '') 2 = None"
  shows "useSafeContext r (Some st) context = Inl TypeError"
  using assms by (simp add: useSafeContext_def useSafeContext_in_def)

section \<open>Frames and pieces\<close>

lemma at_not_in_indent:
  assumes "i < length indent"
  shows "\<not> prefix ''at '' (drop i (indent @ ''at '' @ rest))"
proof -
  from assms have "i < 5" by (simp add: indent_def)
  then consider "i = 0" | "i = 1" | "i = 2" | "i = 3" | "i = 4" by linarith
  then show ?thesis by cases (simp_all add: indent_def)
qed

lemma at_first_after_line:
  "\<not> sublist ''at '' h \<Longrightarrow> i < length (h @ indent) \<Longrightarrow>
   \<not> prefix ''at '' (drop i ((h @ indent) @ ''at '' @ rest))"
proof (induction h arbitrary: i)
  case Nil
  then show ?case using at_not_in_indent [of i rest] by simp
next
  case (Cons x h)
  have nosub: "\<not> sublist ''at '' h" and nopre: "\<not> prefix ''at '' (x # h)"
    using Cons.prems(1) by (simp_all add: sublist_Cons_right)
  show ?case
  proof (cases i)
    case 0
    have "\<not> prefix ''at '' (x # h @ indent @ ''at '' @ rest)"
    proof (cases h)
      case Nil
      then show ?thesis by (simp add: indent_def)
    next
      case (Cons y h')
      note hy = Cons
      show ?thesis
      proof (cases h')
        case Nil
        then show ?thesis using hy by (simp add: indent_def)
      next
        case (Cons z h'')
        then show ?thesis using hy nopre by simp
      qed
    qed
    then show ?thesis using 0 by simp
  next
    case (Suc j)
    then have "j < length (h @ indent)" using Cons.prems(2) by simp
    then show ?thesis using Cons.IH [OF nosub] Suc by simp
  qed
qed

lemma split_from_frame:
  "\<not> sublist ''at '' h \<Longrightarrow>
   split_from ''at '' [] (h @ indent @ ''at '' @ rest) = (h @ indent) # split_from ''at '' [] rest"
  using split_from_first_match [of "''at ''" "h @ indent" rest "[]"] at_first_after_line [of h _ rest]
  by simp

lemma stack_of_Cons: "stack_of header (f # fs) = header @ indent @ ''at '' @ stack_of f fs"
  by (simp add: stack_of_def)

lemma split_stack_of:
  "\<not> sublist ''at '' header \<Longrightarrow>
   split_str (stack_of header (f # fs)) ''at '' = (header @ indent) # split_str (stack_of f fs) ''at ''"
  using split_from_frame [of header "stack_of f fs"] stack_of_Cons [of header f fs]
  by (simp add: split_str_def)

lemma errorLine_of_frames:
  assumes "\<not> sublist ''at '' header" "\<not> sublist ''at '' f0" "\<not> sublist ''at '' f1"
  shows "index (split_str (stack_of header (f0 # f1 # f2 # fs)) ''at '') 2 = Some (f1 @ indent)"
  using assms by (simp add: split_stack_of index_Cons)

section \<open>Calls after the load\<close>

lemma run_calls:
  "run hook now events = map (\<lambda>(stack, context). useSafeContext_in hook stack context) (calls events)"
proof (induction events arbitrary: now)
  case Nil
  show ?case by simp
next
  case (Cons e events)
  show ?case
  proof (cases e)
    case (Exports r)
    then show ?thesis using Cons.IH [of r] by simp
  next
    case (Call stack "context")
    then show ?thesis using Cons.IH [of now] by simp
  qed
qed

section \<open>The success path\<close>

text \<open>
  Claim C2. Whenever the read through \<open>useHook\<close> yields a value \<open>v\<close> other than
  \<open>undefined\<close>, \<open>useSafeContext\<close> returns exactly \<open>v\<close>, whatever the stack is: the
  value is neither transformed nor kept anywhere.
\<close>

theorem useSafeContext_passes_value_through:
  "useHook r context = Some v \<Longrightarrow> useSafeContext r stack context = Inr v"
  by (rule useSafeContext_value)

theorem useSafeContext_passes_value_through_witness:
  "useHook \<lparr>use = None, useContext = (\<lambda>c. Some (c + 1))\<rparr> (41 :: nat) = Some 42
   \<and> useSafeContext \<lparr>use = None, useContext = (\<lambda>c. Some (c + 1))\<rparr> None (41 :: nat) = Inr 42"
proof -
  have h: "useHook \<lparr>use = None, useContext = (\<lambda>c. Some (c + 1))\<rparr> (41 :: nat) = Some 42"
    by (simp add: useHook_def)
  show ?thesis
    using h useSafeContext_passes_value_through [OF h, of None] by simp
qed

text \<open>
  Claim C10. In a fixed provider state, where the read yields the same value \<open>v\<close> at
  every call, any number of calls of \<open>useSafeContext\<close>, each with the stack of its own
  moment, return \<open>v\<close> every time: the function has no state of its own.
\<close>

theorem useSafeContext_repeated_calls:
  "useHook r context = Some v \<Longrightarrow>
   map (\<lambda>stack. useSafeContext r stack context) stacks = replicate (length stacks) (Inr v)"
  by (induction stacks) (simp_all add: useSafeContext_value)

theorem useSafeContext_repeated_calls_witness:
  "useHook \<lparr>use = Some (\<lambda>c. Some (2 * c)), useContext = (\<lambda>c. None)\<rparr> (5 :: nat) = Some 10
   \<and> map (\<lambda>stack. useSafeContext \<lparr>use = Some (\<lambda>c. Some (2 * c)), useContext = (\<lambda>c. None)\<rparr> stack (5 :: nat))
        [None, Some ''Error'', None]
      = [Inr 10, Inr 10, Inr 10]"
proof -
  have h: "useHook \<lparr>use = Some (\<lambda>c. Some (2 * c)), useContext = (\<lambda>c. None)\<rparr> (5 :: nat) = Some 10"
    by (simp add: useHook_def)
  have three: "replicate (length [None, Some ''Error'', None :: string option]) (Inr 10 :: js_error + nat)
               = [Inr 10, Inr 10, Inr 10]"
    by (simp add: numeral_3_eq_3)
  show ?thesis
    using h useSafeContext_repeated_calls [OF h, of "[None, Some ''Error'', None]"]
    unfolding three by simp
qed

text \<open>
  Claim C9. The choice between the two primitives is \<open>use\<close> where the framework has
  it and \<open>useContext\<close> otherwise, and it is made when the module is loaded, not at the
  calls: whatever the framework comes to export afterwards, every call gives what the
  function gives with the exports of the load. And a module that found \<open>use\<close> and a
  module that fell back to \<open>useContext\<close> give the same result, value or error, for the
  same stack whenever the two primitives yield the same value for the context: the
  result depends on the primitive through that value only.
\<close>

theorem useHook_chosen_at_load:
  "useHook \<lparr>use = Some u, useContext = uc\<rparr> = u
   \<and> useHook \<lparr>use = None, useContext = uc\<rparr> = uc
   \<and> program r events
       = map (\<lambda>(stack, context). useSafeContext r stack context) (calls events)
   \<and> (u context = uc context \<longrightarrow>
        useSafeContext \<lparr>use = Some u, useContext = uc'\<rparr> stack context
        = useSafeContext \<lparr>use = None, useContext = uc\<rparr> stack context)"
proof (intro conjI impI)
  show "useHook \<lparr>use = Some u, useContext = uc\<rparr> = u"
    by (simp add: useHook_def)
  show "useHook \<lparr>use = None, useContext = uc\<rparr> = uc"
    by (simp add: useHook_def)
  show "program r events
        = map (\<lambda>(stack, context). useSafeContext r stack context) (calls events)"
    unfolding program_def useSafeContext_def by (rule run_calls)
next
  assume "u context = uc context"
  then show "useSafeContext \<lparr>use = Some u, useContext = uc'\<rparr> stack context
             = useSafeContext \<lparr>use = None, useContext = uc\<rparr> stack context"
    by (simp add: useSafeContext_def useSafeContext_in_def useHook_def)
qed

theorem useHook_chosen_at_load_witness:
  "(\<lambda>c. if c = ''Counter'' then Some (7 :: nat) else None) ''Counter''
     = (\<lambda>c. if c = ''Theme'' then None else Some 7) ''Counter''
   \<and> useSafeContext \<lparr>use = Some (\<lambda>c. if c = ''Counter'' then Some (7 :: nat) else None),
                      useContext = (\<lambda>c. None)\<rparr> None ''Counter''
     = useSafeContext \<lparr>use = None, useContext = (\<lambda>c. if c = ''Theme'' then None else Some 7)\<rparr>
         None ''Counter''
   \<and> program \<lparr>use = None, useContext = (\<lambda>c. Some (7 :: nat))\<rparr>
       [Call None ''Counter'',
        Exports \<lparr>use = Some (\<lambda>c. Some 9), useContext = (\<lambda>c. Some 8)\<rparr>,
        Call None ''Counter'']
     = [Inr 7, Inr 7]"
proof -
  let ?u = "\<lambda>c. if c = ''Counter'' then Some (7 :: nat) else None"
  let ?uc = "\<lambda>c. if c = ''Theme'' then None else Some (7 :: nat)"
  let ?r = "\<lparr>use = None, useContext = (\<lambda>c :: string. Some (7 :: nat))\<rparr>"
  let ?events = "[Call None ''Counter'',
        Exports \<lparr>use = Some (\<lambda>c. Some 9), useContext = (\<lambda>c. Some (8 :: nat))\<rparr>,
        Call None ''Counter'']"
  have h: "?u ''Counter'' = ?uc ''Counter''"
    by simp
  have v: "useHook ?r ''Counter'' = Some 7"
    by (simp add: useHook_def)
  have c: "map (\<lambda>(stack, context). useSafeContext ?r stack context) (calls ?events) = [Inr 7, Inr 7]"
    by (simp add: useSafeContext_value [OF v])
  show ?thesis
    using h c
      useHook_chosen_at_load [of ?u ?uc ?r ?events "''Counter''" "\<lambda>c. None" None]
    by simp
qed

section \<open>No stack, or too short a stack\<close>

text \<open>
  Claim C8, as the code has it. When the read yields \<open>undefined\<close> and the runtime
  exposes no stack, line 47 reads \<open>split\<close> of \<open>undefined\<close>: the call ends in the
  engine's \<open>TypeError\<close>. The \<open>!\<close> after \<open>stack\<close> guards nothing at run time.
\<close>

theorem useSafeContext_without_stack:
  "useHook r context = None \<Longrightarrow> useSafeContext r None context = Inl TypeError"
  by (simp add: useSafeContext_def useSafeContext_in_def)

theorem useSafeContext_without_stack_witness:
  "useHook \<lparr>use = Some (\<lambda>c. None), useContext = (\<lambda>c. Some True)\<rparr> ''Theme'' = None
   \<and> useSafeContext \<lparr>use = Some (\<lambda>c. None), useContext = (\<lambda>c. Some True)\<rparr> None ''Theme''
     = Inl TypeError"
proof -
  have h: "useHook \<lparr>use = Some (\<lambda>c. None), useContext = (\<lambda>c. Some True)\<rparr> ''Theme'' = None"
    by (simp add: useHook_def)
  show ?thesis
    using h useSafeContext_without_stack [OF h] by simp
qed

text \<open>
  Against claim C8 as stated: with no stack the failing branch is the dereference of
  \<open>undefined\<close> itself, not a diagnostic of its own.
\<close>

theorem useSafeContext_without_stack_counterexample:
  "useSafeContext \<lparr>use = None, useContext = (\<lambda>c. None :: nat option)\<rparr> None () = Inl TypeError"
  by (simp add: useSafeContext_def useSafeContext_in_def useHook_def)

text \<open>
  Claim C7, as the code has it. When the read yields \<open>undefined\<close> and there is a stack
  string, the call ends in the engine's \<open>TypeError\<close> exactly when the string has fewer
  than three pieces between its occurrences of \<open>at\<close> and a space, that is a header and
  at most one frame. There is no error of another kind for this case.
\<close>

theorem useSafeContext_short_stack:
  "useHook r context = None \<Longrightarrow>
   (useSafeContext r (Some st) context = Inl TypeError) = (length (split_str st ''at '') < 3)"
proof -
  assume none: "useHook r context = None"
  show ?thesis
  proof (cases "index (split_str st ''at '') 2")
    case None
    then have "length (split_str st ''at '') < 3"
      by (simp add: index_def split: if_splits)
    then show ?thesis
      using useSafeContext_no_piece [OF none None] by simp
  next
    case (Some errorLine)
    then have "\<not> length (split_str st ''at '') < 3"
      by (simp add: index_def split: if_splits)
    then show ?thesis
      using useSafeContext_message [OF none Some] by simp
  qed
qed

theorem useSafeContext_short_stack_witness:
  "useHook \<lparr>use = None, useContext = (\<lambda>c. None :: nat option)\<rparr> ''Counter'' = None
   \<and> length (split_str ''Error: at useSafeContext (index.js:11:138)'' ''at '') < 3
   \<and> useSafeContext \<lparr>use = None, useContext = (\<lambda>c. None :: nat option)\<rparr>
        (Some ''Error: at useSafeContext (index.js:11:138)'') ''Counter'' = Inl TypeError"
proof -
  have h: "useHook \<lparr>use = None, useContext = (\<lambda>c. None :: nat option)\<rparr> ''Counter'' = None"
    by (simp add: useHook_def)
  have short: "length (split_str ''Error: at useSafeContext (index.js:11:138)'' ''at '') < 3"
    by (simp add: split_str_def)
  show ?thesis
    using h short
      useSafeContext_short_stack [OF h, of "''Error: at useSafeContext (index.js:11:138)''"]
    by blast
qed

text \<open>
  Against claim C7 as stated: a stack of the reader's frame alone has fewer than three
  frames, and the call ends in the low-level \<open>TypeError\<close>.
\<close>

theorem useSafeContext_short_stack_counterexample:
  "useSafeContext \<lparr>use = None, useContext = (\<lambda>c. None :: nat option)\<rparr>
     (Some (stack_of ''Error'' [''useSafeContext (http://localhost:5173/src/index.ts:47:27)''])) ()
   = Inl TypeError"
  by (simp add: useSafeContext_def useSafeContext_in_def useHook_def stack_of_def indent_def split_str_def index_def)

section \<open>The message\<close>




text \<open>
  Claim C1, as the code has it. \<open>useSafeContext\<close> raises an error exactly when the read
  yields \<open>undefined\<close>, and returns without error otherwise. When it raises on a stack of
  at least three frames, whose header and first two frame descriptors hold no \<open>at\<close>
  followed by a space and whose frame 1 holds a space, the error is the \<open>Error\<close> of
  line 51, with the message made of the hook's name (the descriptor of frame 1 up to
  its first space), the words \<open>must be used within\<close>, and the provider's name (the
  descriptor of frame 1, with the line break and indentation that follow it, cut at
  the slashes, the last piece kept up to its first dot).
\<close>

theorem useSafeContext_raises_iff_undefined:
  "(isl (useSafeContext r stack context) = (useHook r context = None))
   \<and> (useHook r context = None \<longrightarrow>
        \<not> sublist ''at '' header \<longrightarrow> \<not> sublist ''at '' f0 \<longrightarrow> \<not> sublist ''at '' f1 \<longrightarrow>
        CHR '' '' \<in> set f1 \<longrightarrow>
        useSafeContext r (Some (stack_of header (f0 # f1 # f2 # fs))) context =
          Inl (Error (takeWhile (\<lambda>c. c \<noteq> CHR '' '') f1 @ '' must be used within ''
                      @ takeWhile (\<lambda>c. c \<noteq> CHR ''.'') (last (split_str (f1 @ indent) ''/'')))))"
proof (intro conjI impI)
  show "isl (useSafeContext r stack context) = (useHook r context = None)"
  proof (cases "useHook r context")
    case (Some v)
    then show ?thesis by (simp add: useSafeContext_value)
  next
    case None
    note none = None
    show ?thesis
    proof (cases stack)
      case None
      then show ?thesis using none by (simp add: useSafeContext_def useSafeContext_in_def)
    next
      case (Some s)
      note stack = Some
      show ?thesis
      proof (cases "index (split_str s ''at '') 2")
        case None
        then show ?thesis using none stack useSafeContext_no_piece [of r "context" s] by simp
      next
        case (Some e)
        then show ?thesis using none stack useSafeContext_message [of r "context" s e] by simp
      qed
    qed
  qed
next
  assume none: "useHook r context = None"
    and a: "\<not> sublist ''at '' header" and b: "\<not> sublist ''at '' f0" and c: "\<not> sublist ''at '' f1"
    and sp: "CHR '' '' \<in> set f1"
  have "takeWhile (\<lambda>c. c \<noteq> CHR '' '') (f1 @ indent) = takeWhile (\<lambda>c. c \<noteq> CHR '' '') f1"
    using sp by (simp add: takeWhile_append1)
  then show "useSafeContext r (Some (stack_of header (f0 # f1 # f2 # fs))) context =
          Inl (Error (takeWhile (\<lambda>c. c \<noteq> CHR '' '') f1 @ '' must be used within ''
                      @ takeWhile (\<lambda>c. c \<noteq> CHR ''.'') (last (split_str (f1 @ indent) ''/''))))"
    using useSafeContext_message [OF none errorLine_of_frames [OF a b c]]
    by (simp add: hd_split_str_char)
qed

theorem useSafeContext_raises_iff_undefined_witness:
  "useHook \<lparr>use = None, useContext = (\<lambda>c. None :: nat option)\<rparr> ''CounterCtx'' = None
   \<and> \<not> sublist ''at '' ''Error''
   \<and> \<not> sublist ''at '' ''useSafeContext (http://localhost:5173/node_modules/.vite/deps/use-safe-context.js?v=766d6ed6:11:138)''
   \<and> \<not> sublist ''at '' ''useCounter (http://localhost:5173/src/ContextProvider.tsx:8:33)''
   \<and> CHR '' '' \<in> set ''useCounter (http://localhost:5173/src/ContextProvider.tsx:8:33)''
   \<and> isl (useSafeContext \<lparr>use = None, useContext = (\<lambda>c. None :: nat option)\<rparr> (Some (stack_of ''Error''
         [''useSafeContext (http://localhost:5173/node_modules/.vite/deps/use-safe-context.js?v=766d6ed6:11:138)'',
          ''useCounter (http://localhost:5173/src/ContextProvider.tsx:8:33)'',
          ''ConsumerComponent (http://localhost:5173/src/ConsumerComponent.tsx:4:21)''])) ''CounterCtx'')
   \<and> useSafeContext \<lparr>use = None, useContext = (\<lambda>c. None :: nat option)\<rparr> (Some (stack_of ''Error''
         [''useSafeContext (http://localhost:5173/node_modules/.vite/deps/use-safe-context.js?v=766d6ed6:11:138)'',
          ''useCounter (http://localhost:5173/src/ContextProvider.tsx:8:33)'',
          ''ConsumerComponent (http://localhost:5173/src/ConsumerComponent.tsx:4:21)''])) ''CounterCtx''
      = Inl (Error ''useCounter must be used within ContextProvider'')"
proof -
  let ?r = "\<lparr>use = None, useContext = (\<lambda>c. None :: nat option)\<rparr> :: (string, nat) react"
  let ?f0 = "''useSafeContext (http://localhost:5173/node_modules/.vite/deps/use-safe-context.js?v=766d6ed6:11:138)''"
  let ?f1 = "''useCounter (http://localhost:5173/src/ContextProvider.tsx:8:33)''"
  let ?f2 = "''ConsumerComponent (http://localhost:5173/src/ConsumerComponent.tsx:4:21)''"
  let ?st = "stack_of ''Error'' [?f0, ?f1, ?f2]"
  have h: "useHook ?r ''CounterCtx'' = None"
    by (simp add: useHook_def)
  have a: "\<not> sublist ''at '' ''Error''"
    by (simp add: sublist_Cons_right)
  have b: "\<not> sublist ''at '' ?f0"
    by (simp add: sublist_Cons_right)
  have c: "\<not> sublist ''at '' ?f1"
    by (simp add: sublist_Cons_right)
  have sp: "CHR '' '' \<in> set ?f1"
    by simp
  have m: "takeWhile (\<lambda>c. c \<noteq> CHR '' '') ?f1 = ''useCounter''"
    by simp
  have n: "takeWhile (\<lambda>c. c \<noteq> CHR ''.'') (last (split_str (?f1 @ indent) ''/'')) = ''ContextProvider''"
    by (simp add: indent_def split_str_def)
  have "isl (useSafeContext ?r (Some ?st) ''CounterCtx'')
        \<and> useSafeContext ?r (Some ?st) ''CounterCtx''
            = Inl (Error (takeWhile (\<lambda>c. c \<noteq> CHR '' '') ?f1 @ '' must be used within ''
                      @ takeWhile (\<lambda>c. c \<noteq> CHR ''.'') (last (split_str (?f1 @ indent) ''/''))))"
    using h a b c sp
      useSafeContext_raises_iff_undefined [of ?r "Some ?st" "''CounterCtx''" "''Error''" ?f0 ?f1 ?f2 "[]"]
    by blast
  then show ?thesis using h a b c sp unfolding m n by simp
qed

text \<open>
  Against claim C1 as stated: the read yields \<open>undefined\<close> and the runtime exposes no
  stack; what is raised is the engine's \<open>TypeError\<close>, not the error with the message.
\<close>

theorem useSafeContext_raises_iff_undefined_counterexample:
  "useHook \<lparr>use = Some (\<lambda>c. None :: bool option), useContext = (\<lambda>c. None)\<rparr> ''CounterCtx'' = None
   \<and> useSafeContext \<lparr>use = Some (\<lambda>c. None :: bool option), useContext = (\<lambda>c. None)\<rparr>
        None ''CounterCtx''
      = Inl TypeError"
  by (simp add: useSafeContext_def useSafeContext_in_def useHook_def)

section \<open>Frames\<close>

text \<open>
  Claim C3, as the code has it. Take a stack of at least three frames whose header and
  first two frame descriptors hold no \<open>at\<close> followed by a space. Then the provider's
  name in the message is read from frame 1, the consumer hook's own frame, not from
  frame 2: it is the whole text of that descriptor with the line break and indentation
  that follow it, cut at the slashes, the last piece kept up to its first dot. Frame 2
  and the frames after it have no part in the message.
\<close>

theorem useSafeContext_provider_from_hook_frame:
  assumes "useHook r context = None"
    and "\<not> sublist ''at '' header"
    and "\<not> sublist ''at '' f0"
    and "\<not> sublist ''at '' f1"
  shows "useSafeContext r (Some (stack_of header (f0 # f1 # f2 # fs))) context =
         Inl (Error (takeWhile (\<lambda>c. c \<noteq> CHR '' '') (f1 @ indent) @ '' must be used within ''
                     @ takeWhile (\<lambda>c. c \<noteq> CHR ''.'') (last (split_str (f1 @ indent) ''/''))))"
  using useSafeContext_message [OF assms(1) errorLine_of_frames [OF assms(2) assms(3) assms(4)]]
  by (simp add: hd_split_str_char)

theorem useSafeContext_provider_from_hook_frame_witness:
  "useHook \<lparr>use = Some (\<lambda>c. None :: nat option), useContext = (\<lambda>c. None)\<rparr> ''ThemeCtx'' = None
   \<and> \<not> sublist ''at '' ''Error''
   \<and> \<not> sublist ''at '' ''useSafeContext (http://localhost:5173/src/index.ts:47:27)''
   \<and> \<not> sublist ''at '' ''useTheme (http://localhost:5173/src/ThemeProvider.tsx:6:31)''
   \<and> useSafeContext \<lparr>use = Some (\<lambda>c. None :: nat option), useContext = (\<lambda>c. None)\<rparr>
        (Some (stack_of ''Error''
          [''useSafeContext (http://localhost:5173/src/index.ts:47:27)'',
           ''useTheme (http://localhost:5173/src/ThemeProvider.tsx:6:31)'',
           ''Toolbar (http://localhost:5173/src/Toolbar.tsx:9:17)''])) ''ThemeCtx''
      = Inl (Error ''useTheme must be used within ThemeProvider'')"
proof -
  let ?f1 = "''useTheme (http://localhost:5173/src/ThemeProvider.tsx:6:31)''"
  have h: "useHook \<lparr>use = Some (\<lambda>c. None :: nat option), useContext = (\<lambda>c. None)\<rparr> ''ThemeCtx'' = None"
    by (simp add: useHook_def)
  have a: "\<not> sublist ''at '' ''Error''"
    by (simp add: sublist_Cons_right)
  have b: "\<not> sublist ''at '' ''useSafeContext (http://localhost:5173/src/index.ts:47:27)''"
    by (simp add: sublist_Cons_right)
  have c: "\<not> sublist ''at '' ?f1"
    by (simp add: sublist_Cons_right)
  have m: "takeWhile (\<lambda>c. c \<noteq> CHR '' '') (?f1 @ indent) = ''useTheme''"
    by (simp add: indent_def)
  have n: "takeWhile (\<lambda>c. c \<noteq> CHR ''.'') (last (split_str (?f1 @ indent) ''/'')) = ''ThemeProvider''"
    by (simp add: indent_def split_str_def)
  show ?thesis
    using h a b c
      useSafeContext_provider_from_hook_frame
        [OF h a b c, of "''Toolbar (http://localhost:5173/src/Toolbar.tsx:9:17)''" "[]"]
    unfolding m n by simp
qed

text \<open>
  Against claim C3 as stated: on the stack of the README, with the locations as the
  engine writes them, the provider's name in the message is that of the hook's file,
  \<open>ContextProvider\<close>, while frame 2, read the way the specification says, gives
  \<open>ConsumerComponent\<close>.
\<close>

theorem useSafeContext_provider_from_hook_frame_counterexample:
  "useSafeContext \<lparr>use = None, useContext = (\<lambda>c. None :: nat option)\<rparr>
     (Some (stack_of ''Error''
       [''useSafeContext (http://localhost:5173/node_modules/.vite/deps/use-safe-context.js?v=766d6ed6:11:138)'',
        ''useCounter (http://localhost:5173/src/ContextProvider.tsx:8:33)'',
        ''ConsumerComponent (http://localhost:5173/src/ConsumerComponent.tsx:4:21)''])) ()
     = Inl (Error ''useCounter must be used within ContextProvider'')
   \<and> spec_expectedProviderName
       [''useSafeContext (http://localhost:5173/node_modules/.vite/deps/use-safe-context.js?v=766d6ed6:11:138)'',
        ''useCounter (http://localhost:5173/src/ContextProvider.tsx:8:33)'',
        ''ConsumerComponent (http://localhost:5173/src/ConsumerComponent.tsx:4:21)'']
     = ''ConsumerComponent''"
  by (simp add: useSafeContext_def useSafeContext_in_def useHook_def stack_of_def indent_def split_str_def index_def
      template_def spec_expectedProviderName_def source_location_def)

text \<open>
  Claim C4 at a hook whose name ends in \<open>at\<close>. The descriptor of frame 1 is
  \<open>useChat (...)\<close>, whose text up to the first space is \<open>useChat\<close>; the split of the
  stack string cuts inside the name, and the message names the hook \<open>useCh\<close> (and the
  provider too).
\<close>

theorem useSafeContext_hook_name_cut:
  "useSafeContext \<lparr>use = None, useContext = (\<lambda>c. None :: nat option)\<rparr>
     (Some (stack_of ''Error''
       [''useSafeContext (http://localhost:5173/node_modules/.vite/deps/use-safe-context.js?v=766d6ed6:11:138)'',
        ''useChat (http://localhost:5173/src/ChatProvider.tsx:8:33)'',
        ''ChatWindow (http://localhost:5173/src/ChatWindow.tsx:4:21)''])) ()
     = Inl (Error ''useCh must be used within useCh'')
   \<and> spec_consumerHookName
       [''useSafeContext (http://localhost:5173/node_modules/.vite/deps/use-safe-context.js?v=766d6ed6:11:138)'',
        ''useChat (http://localhost:5173/src/ChatProvider.tsx:8:33)'',
        ''ChatWindow (http://localhost:5173/src/ChatWindow.tsx:4:21)'']
     = ''useChat''"
  by (simp add: useSafeContext_def useSafeContext_in_def useHook_def stack_of_def indent_def split_str_def index_def
      template_def spec_consumerHookName_def)

text \<open>
  Claim C5, as the code has it. On the synthetic snapshot of the specification, whose
  locations hold no slash, the last piece of the split at slashes is the whole frame
  text, and the provider's name comes out as \<open>useCounter (ContextProvider\<close>. With the
  same frames and the locations written as paths, the message is the one expected.
\<close>

theorem useSafeContext_synthetic_snapshot:
  "useSafeContext \<lparr>use = None, useContext = (\<lambda>c. None :: nat option)\<rparr>
     (Some (stack_of ''Error''
       [''readSafe'',
        ''useCounter (ContextProvider.tsx:8:33)'',
        ''ConsumerComponent (ConsumerComponent.tsx:4:21)''])) ()
     = Inl (Error ''useCounter must be used within useCounter (ContextProvider'')
   \<and> useSafeContext \<lparr>use = None, useContext = (\<lambda>c. None :: nat option)\<rparr>
     (Some (stack_of ''Error''
       [''readSafe'',
        ''useCounter (/src/ContextProvider.tsx:8:33)'',
        ''ConsumerComponent (/src/ConsumerComponent.tsx:4:21)''])) ()
     = Inl (Error ''useCounter must be used within ContextProvider'')"
  by (simp add: useSafeContext_def useSafeContext_in_def useHook_def stack_of_def indent_def split_str_def index_def
      template_def)

text \<open>
  Against claim C5 as stated: on the synthetic snapshot the message is not
  \<open>useCounter must be used within ContextProvider\<close>.
\<close>

theorem useSafeContext_synthetic_snapshot_counterexample:
  "useSafeContext \<lparr>use = None, useContext = (\<lambda>c. None :: nat option)\<rparr>
     (Some (stack_of ''Error''
       [''readSafe'',
        ''useCounter (ContextProvider.tsx:8:33)'',
        ''ConsumerComponent (ConsumerComponent.tsx:4:21)''])) ()
   \<noteq> Inl (Error ''useCounter must be used within ContextProvider'')"
  by (simp add: useSafeContext_def useSafeContext_in_def useHook_def stack_of_def indent_def split_str_def index_def
      template_def)

end
